theory Spec2Isabelle
  imports Complex_Main
begin

section \<open>The beverage system: drinks and orders\<close>

text \<open>
  A shallow embedding of \<^verbatim>\<open>CinosBeverageSystem.py\<close>: the classes \<^verbatim>\<open>Drink\<close> and
  \<^verbatim>\<open>Order\<close>. An object is a record of its attributes. A method that mutates
  the object takes the object's state and returns the outcome of the call together with
  the state the object is left in: an exception does not undo the mutations made before
  it was raised, so the state after a failed call is part of the result.
\<close>

subsection \<open>Values and exceptions\<close>

text \<open>
  The attributes of a drink: \<^verbatim>\<open>_base\<close> is \<^verbatim>\<open>None\<close> or a \<^verbatim>\<open>str\<close>, \<^verbatim>\<open>_flavors\<close> is a
  \<^verbatim>\<open>set\<close> of \<^verbatim>\<open>str\<close> (only a value that compares equal to an element of one of the two
  class-level lists of strings is ever stored).
\<close>

record drink =
  base :: "string option"
  flavors :: "string set"

text \<open>
  The methods are dynamically typed; their arguments range over the Python values below.
\<close>

datatype pyval =
    PyNone
  | PyBool bool
  | PyInt int
  | PyStr string
  | PyList "pyval list"
  | PyDrink drink

text \<open>
  The exceptions, one constructor for each \<^verbatim>\<open>raise\<close> of the source:
  \<^item> \<open>AlreadySet\<close>: \<^verbatim>\<open>ValueError("A base has already been added.")\<close>;
  \<^item> \<open>InvalidValue\<close>: \<^verbatim>\<open>ValueError("Invalid base: ...")\<close> and \<^verbatim>\<open>ValueError("Invalid flavor: ...")\<close>;
  \<^item> \<open>Duplicate\<close>: \<^verbatim>\<open>ValueError("Flavor '...' has already been added.")\<close>;
  \<^item> \<open>TypeMismatch\<close>: \<^verbatim>\<open>TypeError("Invalid item. Only Drink objects are allowed.")\<close>;
  \<^item> \<open>OutOfRange\<close>: \<^verbatim>\<open>IndexError("Invalid index. No drink removed.")\<close>;
  \<^item> \<open>NotIterable\<close>: the \<^verbatim>\<open>TypeError\<close> of a \<^verbatim>\<open>for\<close> statement over a value that cannot
    be iterated.
\<close>

datatype error = AlreadySet | InvalidValue | Duplicate | TypeMismatch | OutOfRange | NotIterable

type_synonym 's outcome = "(error + unit) \<times> 's"

subsection \<open>Drink\<close>

definition valid_bases :: "string list" where
  "valid_bases = [''water'', ''sbrite'', ''pokeacola'', ''Mr. Salt'', ''hill fog'', ''leaf wine'']"

definition valid_flavors :: "string list" where
  "valid_flavors = [''lemon'', ''cherry'', ''strawberry'', ''mint'', ''blueberry'', ''lime'']"

definition Drink_init :: drink where
  "Drink_init = \<lparr>base = None, flavors = {}\<rparr>"

definition get_base :: "drink \<Rightarrow> string option" where
  "get_base d = base d"

text \<open>
  \<^verbatim>\<open>list(self._flavors)\<close> lists the set in the order of its hash table, which the source
  does not determine. The order is a parameter \<open>en\<close> of the model.
\<close>

definition get_flavors :: "(string set \<Rightarrow> string list) \<Rightarrow> drink \<Rightarrow> string list" where
  "get_flavors en d = en (flavors d)"

definition get_num_flavors :: "drink \<Rightarrow> nat" where
  "get_num_flavors d = card (flavors d)"

text \<open>
  \<^verbatim>\<open>x in xs\<close> for a list of strings: only a \<^verbatim>\<open>str\<close> is equal to a \<^verbatim>\<open>str\<close>.
\<close>

fun py_in :: "pyval \<Rightarrow> string list \<Rightarrow> bool" where
  "py_in (PyStr s) xs = (s \<in> set xs)"
| "py_in _ xs = False"

definition add_base :: "drink \<Rightarrow> pyval \<Rightarrow> drink outcome" where
  "add_base d b =
     (if base d \<noteq> None then (Inl AlreadySet, d)
      else if \<not> py_in b valid_bases then (Inl InvalidValue, d)
      else (case b of PyStr s \<Rightarrow> (Inr (), d\<lparr>base := Some s\<rparr>)
                    | _ \<Rightarrow> (Inl InvalidValue, d)))"

definition add_flavor :: "drink \<Rightarrow> pyval \<Rightarrow> drink outcome" where
  "add_flavor d flavor =
     (if \<not> py_in flavor valid_flavors then (Inl InvalidValue, d)
      else (case flavor of
              PyStr s \<Rightarrow>
                if s \<in> flavors d then (Inl Duplicate, d)
                else (Inr (), d\<lparr>flavors := insert s (flavors d)\<rparr>)
            | _ \<Rightarrow> (Inl InvalidValue, d)))"

text \<open>
  What a \<^verbatim>\<open>for\<close> statement iterates over: the elements of a list, the characters of a
  string (each a string of length one); the other values are not iterable.
\<close>

fun py_iter :: "pyval \<Rightarrow> error + pyval list" where
  "py_iter (PyList vs) = Inr vs"
| "py_iter (PyStr s) = Inr (map (\<lambda>c. PyStr [c]) s)"
| "py_iter _ = Inl NotIterable"

text \<open>The loop of \<^verbatim>\<open>set_flavors\<close>: the first exception ends it.\<close>

fun add_each :: "drink \<Rightarrow> pyval list \<Rightarrow> drink outcome" where
  "add_each d [] = (Inr (), d)"
| "add_each d (v # vs) =
     (case add_flavor d v of
        (Inl e, d') \<Rightarrow> (Inl e, d')
      | (Inr _, d') \<Rightarrow> add_each d' vs)"

definition set_flavors :: "drink \<Rightarrow> pyval \<Rightarrow> drink outcome" where
  "set_flavors d fl =
     (let d0 = d\<lparr>flavors := {}\<rparr>
      in case py_iter fl of
           Inl e \<Rightarrow> (Inl e, d0)
         | Inr vs \<Rightarrow> add_each d0 vs)"

subsection \<open>Order\<close>

record order =
  items :: "drink list"

definition Order_init :: order where
  "Order_init = \<lparr>items = []\<rparr>"

definition get_items :: "order \<Rightarrow> drink list" where
  "get_items ord = items ord"

definition get_num_items :: "order \<Rightarrow> int" where
  "get_num_items ord = int (length (items ord))"

text \<open>
  \<^verbatim>\<open>len(self._items) * price_per_drink\<close> multiplies an \<^verbatim>\<open>int\<close> by the \<^verbatim>\<open>float\<close> 5.00:
  the integer is converted to the nearest binary64 number, and the product of the two
  binary64 numbers is their exact product rounded to the nearest binary64 number, ties to
  the even significand in both roundings. Both operands are non-negative integers, so
  the rounding is modelled on natural numbers: \<open>round_binary64 n\<close> keeps the 53 leading
  binary digits of \<open>n\<close>. The exponent range is not modelled (the length of a list is below
  \<open>2 ^ 63\<close>). A \<^verbatim>\<open>float\<close> is represented by the rational number it denotes.
\<close>

function bit_length :: "nat \<Rightarrow> nat" where
  "bit_length n = (if n = 0 then 0 else Suc (bit_length (n div 2)))"
  by pat_completeness auto
termination
  by (relation "measure (\<lambda>n. n)") auto

declare bit_length.simps [simp del]

definition round_binary64 :: "nat \<Rightarrow> nat" where
  "round_binary64 n =
     (let e = bit_length n - 53;
          q = n div 2 ^ e;
          r = n mod 2 ^ e
      in if 2 * r < 2 ^ e then q * 2 ^ e
         else if 2 * r > 2 ^ e then (q + 1) * 2 ^ e
         else if even q then q * 2 ^ e
         else (q + 1) * 2 ^ e)"

definition get_total :: "order \<Rightarrow> rat" where
  "get_total ord =
     (let price_per_drink = 5
      in of_nat (round_binary64 (round_binary64 (length (items ord)) * price_per_drink)))"

text \<open>\<^verbatim>\<open>str\<close> of a non-negative \<^verbatim>\<open>int\<close>: its decimal digits.\<close>

definition digit_char :: "nat \<Rightarrow> char" where
  "digit_char k = ''0123456789'' ! k"

function str_nat :: "nat \<Rightarrow> string" where
  "str_nat n = (if n < 10 then [digit_char n] else str_nat (n div 10) @ [digit_char (n mod 10)])"
  by pat_completeness auto
termination
  by (relation "measure (\<lambda>n. n)") auto

declare str_nat.simps [simp del]

text \<open>
  The format \<^verbatim>\<open>:.2f\<close>: the value rounded to the nearest multiple of 1/100 (a tie goes to
  the even one), written with two digits after the point.
\<close>

definition round_half_even :: "rat \<Rightarrow> int" where
  "round_half_even x =
     (let f = \<lfloor>x\<rfloor>; r = x - of_int f
      in if r < 1 / 2 then f
         else if r > 1 / 2 then f + 1
         else if even f then f
         else f + 1)"

definition format_2f :: "rat \<Rightarrow> string" where
  "format_2f x =
     (let c = nat (round_half_even (\<bar>x\<bar> * 100))
      in (if x < 0 then ''-'' else '''')
         @ str_nat (c div 100) @ ''.'' @ [digit_char (c div 10 mod 10), digit_char (c mod 10)])"

text \<open>\<^verbatim>\<open>sep.join(xs)\<close>.\<close>

fun join_str :: "string \<Rightarrow> string list \<Rightarrow> string" where
  "join_str sep [] = []"
| "join_str sep [x] = x"
| "join_str sep (x # y # ys) = x @ sep @ join_str sep (y # ys)"

text \<open>\<^verbatim>\<open>str\<close> of the value of \<^verbatim>\<open>_base\<close>, as an f-string renders it.\<close>

fun str_base :: "string option \<Rightarrow> string" where
  "str_base None = ''None''"
| "str_base (Some s) = s"

text \<open>
  One line of the receipt. \<^verbatim>\<open>a or b\<close> is \<^verbatim>\<open>b\<close> when \<^verbatim>\<open>a\<close> is the empty string.
\<close>

definition receipt_line :: "(string set \<Rightarrow> string list) \<Rightarrow> nat \<Rightarrow> drink \<Rightarrow> string" where
  "receipt_line en idx d =
     (let joined = join_str '', '' (get_flavors en d)
      in str_nat idx @ ''. Base: '' @ str_base (get_base d) @ '', Flavors: ''
         @ (if joined = [] then ''None'' else joined))"

text \<open>
  The loop over \<^verbatim>\<open>enumerate(self._items, 1)\<close>, appending to \<^verbatim>\<open>receipt_lines\<close>. The
  order in which a drink's flavors are listed may differ from drink to drink, so the
  parameter \<open>en\<close> takes the drink's number too.
\<close>

fun receipt_loop ::
  "(nat \<Rightarrow> string set \<Rightarrow> string list) \<Rightarrow> nat \<Rightarrow> drink list \<Rightarrow> string list \<Rightarrow> string list" where
  "receipt_loop en idx [] receipt_lines = receipt_lines"
| "receipt_loop en idx (d # ds) receipt_lines =
     receipt_loop en (idx + 1) ds (receipt_lines @ [receipt_line (en idx) idx d])"

text \<open>The final value of the local variable \<^verbatim>\<open>receipt_lines\<close> (for an order with items).\<close>

definition receipt_lines :: "(nat \<Rightarrow> string set \<Rightarrow> string list) \<Rightarrow> order \<Rightarrow> string list" where
  "receipt_lines en ord =
     (let ls = receipt_loop en 1 (items ord) [''--- Order Receipt ---''];
          ls = ls @ [''Total Drinks: '' @ str_nat (nat (get_num_items ord))];
          ls = ls @ [''Total Cost: $'' @ format_2f (get_total ord)]
      in ls)"

definition get_receipt :: "(nat \<Rightarrow> string set \<Rightarrow> string list) \<Rightarrow> order \<Rightarrow> string" where
  "get_receipt en ord =
     (if items ord = [] then ''Order is empty. Add some drinks!''
      else join_str [CHR 0x0A] (receipt_lines en ord))"

fun add_item :: "order \<Rightarrow> pyval \<Rightarrow> order outcome" where
  "add_item ord (PyDrink d) = (Inr (), ord\<lparr>items := items ord @ [d]\<rparr>)"
| "add_item ord _ = (Inl TypeMismatch, ord)"

text \<open>\<^verbatim>\<open>xs.pop(i)\<close> for an index inside the list.\<close>

fun pop :: "'a list \<Rightarrow> nat \<Rightarrow> 'a list" where
  "pop [] i = []"
| "pop (x # xs) 0 = xs"
| "pop (x # xs) (Suc i) = x # pop xs i"

definition remove_item :: "order \<Rightarrow> int \<Rightarrow> order outcome" where
  "remove_item ord index =
     (if index < 0 \<or> index \<ge> int (length (items ord)) then (Inl OutOfRange, ord)
      else (Inr (), ord\<lparr>items := pop (items ord) (nat index)\<rparr>))"

subsection \<open>The invariant of a drink and the states a drink can reach\<close>

text \<open>
  The flavors are held in a \<^verbatim>\<open>set\<close>, in the source as in the model, so that a flavor
  cannot occur twice in them; the invariant states what the container's type does not.
\<close>

definition drink_inv :: "drink \<Rightarrow> bool" where
  "drink_inv d \<longleftrightarrow>
     (base d = None \<or> (\<exists>b \<in> set valid_bases. base d = Some b))
     \<and> flavors d \<subseteq> set valid_flavors"

inductive reachable :: "drink \<Rightarrow> bool" where
  init: "reachable Drink_init"
| by_add_base: "reachable d \<Longrightarrow> reachable (snd (add_base d v))"
| by_add_flavor: "reachable d \<Longrightarrow> reachable (snd (add_flavor d v))"
| by_set_flavors: "reachable d \<Longrightarrow> reachable (snd (set_flavors d fl))"

subsection \<open>The receipt as the specification words it\<close>

text \<open>
  A header line, then one line per drink, numbered from 1 in the order of insertion, of
  the form \<^verbatim>\<open><n>. Base: <base or unset-placeholder>, Flavors: <comma-joined flavor list
  or 'None' if empty>\<close>, then a line with the number of items and a line with the total
  cost; for an order without items, a fixed message. The placeholder of an unset base is
  the parameter \<open>unset\<close>. This definition follows the specification, not the source; it is
  compared with \<open>get_receipt\<close> below.
\<close>

definition spec_line :: "string \<Rightarrow> (string set \<Rightarrow> string list) \<Rightarrow> nat \<Rightarrow> drink \<Rightarrow> string" where
  "spec_line unset en n d =
     str_nat n @ ''. Base: '' @ (case base d of None \<Rightarrow> unset | Some b \<Rightarrow> b)
     @ '', Flavors: '' @ (if flavors d = {} then ''None'' else join_str '', '' (en (flavors d)))"

definition spec_receipt :: "string \<Rightarrow> (nat \<Rightarrow> string set \<Rightarrow> string list) \<Rightarrow> order \<Rightarrow> string" where
  "spec_receipt unset en ord =
     (if items ord = [] then ''Order is empty. Add some drinks!''
      else join_str [CHR 0x0A]
             ([''--- Order Receipt ---'']
              @ map (\<lambda>k. spec_line unset (en (k + 1)) (k + 1) (items ord ! k))
                  [0..<length (items ord)]
              @ [''Total Drinks: '' @ str_nat (length (items ord)),
                 ''Total Cost: $'' @ format_2f (get_total ord)]))"

definition is_digit :: "char \<Rightarrow> bool" where
  "is_digit c \<longleftrightarrow> c \<in> set ''0123456789''"

definition two_decimals :: "string \<Rightarrow> bool" where
  "two_decimals s \<longleftrightarrow>
     (case rev s of
        b # a # p # w \<Rightarrow> is_digit a \<and> is_digit b \<and> p = CHR ''.'' \<and> w \<noteq> [] \<and> list_all is_digit w
      | _ \<Rightarrow> False)"

section \<open>Properties of Drink\<close>

subsection \<open>The two lists of valid values\<close>

lemma set_valid_bases: "set valid_bases = {''water'', ''sbrite'', ''pokeacola'', ''Mr. Salt'', ''hill fog'', ''leaf wine''}"
  by (simp add: valid_bases_def)

lemma set_valid_flavors: "set valid_flavors = {''lemon'', ''cherry'', ''strawberry'', ''mint'', ''blueberry'', ''lime''}"
  by (simp add: valid_flavors_def)

lemma py_in_iff: "py_in v xs \<longleftrightarrow> v \<in> PyStr ` set xs"
  by (cases v) auto

subsection \<open>add_base\<close>

text \<open>
  Claim C2. \<^verbatim>\<open>add_base(v)\<close> raises AlreadySet whenever a base is assigned, whatever \<open>v\<close>
  is; with no base assigned it raises InvalidValue for a \<open>v\<close> that is not one of the six
  valid bases, and the base stays unset; otherwise it assigns \<open>v\<close>. So a valid base is
  accepted once, and any second call raises AlreadySet and leaves the base as it is.
\<close>

theorem add_base_cases:
  "(base d \<noteq> None \<longrightarrow> add_base d v = (Inl AlreadySet, d))
   \<and> (base d = None \<and> v \<notin> PyStr ` {''water'', ''sbrite'', ''pokeacola'', ''Mr. Salt'', ''hill fog'', ''leaf wine''}
        \<longrightarrow> add_base d v = (Inl InvalidValue, d))
   \<and> (base d = None \<and> b \<in> {''water'', ''sbrite'', ''pokeacola'', ''Mr. Salt'', ''hill fog'', ''leaf wine''}
        \<longrightarrow> add_base d (PyStr b) = (Inr (), d\<lparr>base := Some b\<rparr>)
            \<and> add_base (snd (add_base d (PyStr b))) w = (Inl AlreadySet, d\<lparr>base := Some b\<rparr>))"
  unfolding set_valid_bases [symmetric] by (auto simp: add_base_def py_in_iff)

theorem add_base_cases_witness:
  "add_base Drink_init (PyStr ''water'') = (Inr (), \<lparr>base = Some ''water'', flavors = {}\<rparr>)
   \<and> add_base \<lparr>base = Some ''water'', flavors = {}\<rparr> (PyStr ''sbrite'') = (Inl AlreadySet, \<lparr>base = Some ''water'', flavors = {}\<rparr>)
   \<and> add_base \<lparr>base = Some ''water'', flavors = {}\<rparr> (PyInt 3) = (Inl AlreadySet, \<lparr>base = Some ''water'', flavors = {}\<rparr>)
   \<and> add_base Drink_init (PyStr ''milk'') = (Inl InvalidValue, Drink_init)"
  using add_base_cases [of Drink_init "PyStr ''milk''" "''water''" "PyStr ''sbrite''"]
        add_base_cases [of "\<lparr>base = Some ''water'', flavors = {}\<rparr>" "PyStr ''sbrite''" "''water''" "PyNone"]
        add_base_cases [of "\<lparr>base = Some ''water'', flavors = {}\<rparr>" "PyInt 3" "''water''" "PyNone"]
  by (simp add: Drink_init_def image_iff)

subsection \<open>Each mutator changes its own attribute only\<close>

lemma add_flavor_base: "base (snd (add_flavor d v)) = base d"
  by (cases v) (auto simp: add_flavor_def)

lemma add_each_base: "base (snd (add_each d vs)) = base d"
proof (induction vs arbitrary: d)
  case Nil
  show ?case by simp
next
  case (Cons v vs)
  show ?case
  proof (cases "add_flavor d v")
    case (Pair r d')
    have b: "base d' = base d"
      using add_flavor_base [of d v] Pair by simp
    show ?thesis
    proof (cases r)
      case (Inl e)
      with Pair b show ?thesis by simp
    next
      case (Inr u)
      with Pair b Cons.IH [of d'] show ?thesis by simp
    qed
  qed
qed

lemma set_flavors_base: "base (snd (set_flavors d fl)) = base d"
proof (cases "py_iter fl")
  case (Inl e)
  then show ?thesis by (simp add: set_flavors_def)
next
  case (Inr vs)
  then show ?thesis
    using add_each_base [of "d\<lparr>flavors := {}\<rparr>" vs] by (simp add: set_flavors_def)
qed

lemma add_base_flavors: "flavors (snd (add_base d v)) = flavors d"
  by (cases v) (auto simp: add_base_def)

text \<open>
  Claim C9. \<^verbatim>\<open>add_base\<close> never changes the flavors, and \<^verbatim>\<open>add_flavor\<close> and
  \<^verbatim>\<open>set_flavors\<close> never change the base, whether the call returns or raises.
\<close>

theorem drink_frame:
  "flavors (snd (add_base d v)) = flavors d
   \<and> base (snd (add_flavor d v)) = base d
   \<and> base (snd (set_flavors d fl)) = base d"
  using add_base_flavors add_flavor_base set_flavors_base by blast

subsection \<open>The invariant\<close>

lemma drink_inv_init: "drink_inv Drink_init"
  by (simp add: drink_inv_def Drink_init_def)

lemma drink_inv_add_base: "drink_inv d \<Longrightarrow> drink_inv (snd (add_base d v))"
  by (cases v) (auto simp: drink_inv_def add_base_def)

lemma drink_inv_add_flavor: "drink_inv d \<Longrightarrow> drink_inv (snd (add_flavor d v))"
  by (cases v) (auto simp: drink_inv_def add_flavor_def)

lemma drink_inv_add_each: "drink_inv d \<Longrightarrow> drink_inv (snd (add_each d vs))"
proof (induction vs arbitrary: d)
  case Nil
  then show ?case by simp
next
  case (Cons v vs)
  show ?case
  proof (cases "add_flavor d v")
    case (Pair r d')
    have i: "drink_inv d'"
      using drink_inv_add_flavor [OF Cons.prems, of v] Pair by simp
    show ?thesis
    proof (cases r)
      case (Inl e)
      with Pair i show ?thesis by simp
    next
      case (Inr u)
      with Pair Cons.IH [OF i] show ?thesis by simp
    qed
  qed
qed

lemma drink_inv_clear: "drink_inv d \<Longrightarrow> drink_inv (d\<lparr>flavors := {}\<rparr>)"
  by (simp add: drink_inv_def)

lemma drink_inv_set_flavors: "drink_inv d \<Longrightarrow> drink_inv (snd (set_flavors d fl))"
proof (cases "py_iter fl")
  case (Inl e)
  assume "drink_inv d"
  with Inl show ?thesis by (simp add: set_flavors_def drink_inv_clear)
next
  case (Inr vs)
  assume "drink_inv d"
  then have "drink_inv (snd (add_each (d\<lparr>flavors := {}\<rparr>) vs))"
    by (intro drink_inv_add_each drink_inv_clear)
  with Inr show ?thesis by (simp add: set_flavors_def)
qed

lemma reachable_inv: "reachable d \<Longrightarrow> drink_inv d"
  by (induction rule: reachable.induct)
     (simp_all add: drink_inv_init drink_inv_add_base drink_inv_add_flavor drink_inv_set_flavors)

lemma add_flavor_ok_fresh:
  "fst (add_flavor d v) = Inr () \<Longrightarrow> \<exists>s. v = PyStr s \<and> s \<notin> flavors d \<and> flavors (snd (add_flavor d v)) = insert s (flavors d)"
  by (cases v) (auto simp: add_flavor_def split: if_splits)

text \<open>
  Claim C6. The invariant holds of a new drink and every operation preserves it, also when
  it raises; hence in every state a drink can reach the base is unset or one of the six
  valid bases, every flavor is one of the six valid flavors, and the flavors are a finite
  set, to which a call of \<^verbatim>\<open>add_flavor\<close> that returns has added a flavor that was not in
  it.
\<close>

theorem drink_invariant:
  "drink_inv Drink_init
   \<and> (drink_inv d \<longrightarrow>
        drink_inv (snd (add_base d v)) \<and> drink_inv (snd (add_flavor d v))
        \<and> drink_inv (snd (set_flavors d v)))
   \<and> (reachable d \<longrightarrow>
        (base d = None \<or> base d \<in> Some ` {''water'', ''sbrite'', ''pokeacola'', ''Mr. Salt'', ''hill fog'', ''leaf wine''})
        \<and> flavors d \<subseteq> {''lemon'', ''cherry'', ''strawberry'', ''mint'', ''blueberry'', ''lime''}
        \<and> finite (flavors d)
        \<and> (fst (add_flavor d v) = Inr () \<longrightarrow> (\<exists>s. v = PyStr s \<and> s \<notin> flavors d)))"
proof (intro conjI impI)
  show "drink_inv Drink_init" by (rule drink_inv_init)
next
  assume "drink_inv d"
  then show "drink_inv (snd (add_base d v))" by (rule drink_inv_add_base)
next
  assume "drink_inv d"
  then show "drink_inv (snd (add_flavor d v))" by (rule drink_inv_add_flavor)
next
  assume "drink_inv d"
  then show "drink_inv (snd (set_flavors d v))" by (rule drink_inv_set_flavors)
next
  assume "reachable d"
  then have "drink_inv d" by (rule reachable_inv)
  then have "base d = None \<or> base d \<in> Some ` set valid_bases"
    by (auto simp: drink_inv_def)
  then show "base d = None \<or> base d \<in> Some ` {''water'', ''sbrite'', ''pokeacola'', ''Mr. Salt'', ''hill fog'', ''leaf wine''}"
    by (simp only: set_valid_bases)
next
  assume "reachable d"
  then have "drink_inv d" by (rule reachable_inv)
  then have "flavors d \<subseteq> set valid_flavors"
    by (simp add: drink_inv_def)
  then show "flavors d \<subseteq> {''lemon'', ''cherry'', ''strawberry'', ''mint'', ''blueberry'', ''lime''}"
    by (simp only: set_valid_flavors)
next
  assume "reachable d"
  then have "drink_inv d" by (rule reachable_inv)
  then have "flavors d \<subseteq> set valid_flavors" by (simp add: drink_inv_def)
  then show "finite (flavors d)" by (rule finite_subset) simp
next
  assume "fst (add_flavor d v) = Inr ()"
  then show "\<exists>s. v = PyStr s \<and> s \<notin> flavors d"
    using add_flavor_ok_fresh [of d v] by auto
qed

theorem drink_invariant_witness:
  "reachable (snd (add_flavor (snd (add_base Drink_init (PyStr ''water''))) (PyStr ''lemon'')))
   \<and> base (snd (add_flavor (snd (add_base Drink_init (PyStr ''water''))) (PyStr ''lemon'')))
        = Some ''water''
   \<and> flavors (snd (add_flavor (snd (add_base Drink_init (PyStr ''water''))) (PyStr ''lemon'')))
        \<subseteq> {''lemon'', ''cherry'', ''strawberry'', ''mint'', ''blueberry'', ''lime''}
   \<and> drink_inv (snd (add_base Drink_init (PyStr ''water'')))"
proof -
  let ?d = "snd (add_flavor (snd (add_base Drink_init (PyStr ''water''))) (PyStr ''lemon''))"
  have r: "reachable ?d"
    by (intro reachable.intros)
  have b: "base ?d = Some ''water''"
    by (simp add: add_flavor_base add_base_def Drink_init_def valid_bases_def)
  from drink_invariant [of ?d PyNone] r
  have "flavors ?d \<subseteq> {''lemon'', ''cherry'', ''strawberry'', ''mint'', ''blueberry'', ''lime''}"
    by simp
  moreover from drink_invariant [of Drink_init "PyStr ''water''"]
  have "drink_inv (snd (add_base Drink_init (PyStr ''water'')))"
    by simp
  ultimately show ?thesis using r b by simp
qed

subsection \<open>add_flavor\<close>

lemma add_flavor_invalid: "v \<notin> PyStr ` set valid_flavors \<Longrightarrow> add_flavor d v = (Inl InvalidValue, d)"
  by (simp add: add_flavor_def py_in_iff)

lemma add_flavor_duplicate:
  "s \<in> set valid_flavors \<Longrightarrow> s \<in> flavors d \<Longrightarrow> add_flavor d (PyStr s) = (Inl Duplicate, d)"
  by (simp add: add_flavor_def)

lemma add_flavor_fresh:
  "s \<in> set valid_flavors \<Longrightarrow> s \<notin> flavors d
   \<Longrightarrow> add_flavor d (PyStr s) = (Inr (), d\<lparr>flavors := insert s (flavors d)\<rparr>)"
  by (simp add: add_flavor_def)

text \<open>
  Claim C3. \<^verbatim>\<open>add_flavor(v)\<close> raises InvalidValue for a \<open>v\<close> that is not one of the six
  valid flavors; it raises Duplicate for a flavor that is present, and the number of
  flavors is then unchanged; otherwise it inserts \<open>v\<close>, and \<^verbatim>\<open>get_num_flavors()\<close> grows
  by exactly one. Adding the same flavor a second time raises Duplicate.
\<close>

theorem add_flavor_cases:
  "(v \<notin> PyStr ` {''lemon'', ''cherry'', ''strawberry'', ''mint'', ''blueberry'', ''lime''}
      \<longrightarrow> add_flavor d v = (Inl InvalidValue, d))
   \<and> (s \<in> {''lemon'', ''cherry'', ''strawberry'', ''mint'', ''blueberry'', ''lime''} \<and> s \<in> flavors d
      \<longrightarrow> add_flavor d (PyStr s) = (Inl Duplicate, d)
          \<and> get_num_flavors (snd (add_flavor d (PyStr s))) = get_num_flavors d)
   \<and> (reachable d \<and> s \<in> flavors d \<longrightarrow> add_flavor d (PyStr s) = (Inl Duplicate, d))
   \<and> (s \<in> {''lemon'', ''cherry'', ''strawberry'', ''mint'', ''blueberry'', ''lime''} \<and> s \<notin> flavors d
      \<longrightarrow> add_flavor d (PyStr s) = (Inr (), d\<lparr>flavors := insert s (flavors d)\<rparr>)
          \<and> (finite (flavors d)
               \<longrightarrow> get_num_flavors (snd (add_flavor d (PyStr s))) = get_num_flavors d + 1)
          \<and> add_flavor (snd (add_flavor d (PyStr s))) (PyStr s)
              = (Inl Duplicate, snd (add_flavor d (PyStr s))))"
proof -
  have dup: "add_flavor d (PyStr s) = (Inl Duplicate, d)" if "reachable d" "s \<in> flavors d"
  proof -
    from that have "s \<in> set valid_flavors"
      using reachable_inv [of d] by (auto simp: drink_inv_def)
    with that show ?thesis by (simp add: add_flavor_duplicate)
  qed
  have twice: "add_flavor (snd (add_flavor d (PyStr s))) (PyStr s)
                 = (Inl Duplicate, snd (add_flavor d (PyStr s)))"
    if "s \<in> set valid_flavors" "s \<notin> flavors d"
    using that by (simp add: add_flavor_fresh add_flavor_duplicate)
  show ?thesis
    unfolding set_valid_flavors [symmetric]
    using dup twice
    by (simp add: add_flavor_invalid add_flavor_duplicate add_flavor_fresh get_num_flavors_def)
qed

theorem add_flavor_cases_witness:
  "add_flavor Drink_init (PyStr ''lemon'') = (Inr (), \<lparr>base = None, flavors = {''lemon''}\<rparr>)
   \<and> get_num_flavors (snd (add_flavor Drink_init (PyStr ''lemon''))) = 1
   \<and> add_flavor \<lparr>base = None, flavors = {''lemon''}\<rparr> (PyStr ''lemon'')
        = (Inl Duplicate, \<lparr>base = None, flavors = {''lemon''}\<rparr>)
   \<and> add_flavor Drink_init (PyStr ''vanilla'') = (Inl InvalidValue, Drink_init)"
  using add_flavor_cases [of "PyStr ''vanilla''" Drink_init "''lemon''"]
        add_flavor_cases [of "PyStr ''vanilla''" "\<lparr>base = None, flavors = {''lemon''}\<rparr>" "''lemon''"]
  by (simp add: Drink_init_def get_num_flavors_def)

subsection \<open>set_flavors\<close>

lemma add_each_prefix:
  "distinct ss \<Longrightarrow> set ss \<subseteq> set valid_flavors \<Longrightarrow> set ss \<inter> flavors d = {}
   \<Longrightarrow> add_each d (map PyStr ss @ rest) = add_each (d\<lparr>flavors := flavors d \<union> set ss\<rparr>) rest"
proof (induction ss arbitrary: d)
  case Nil
  show ?case by simp
next
  case (Cons s ss)
  let ?d' = "d\<lparr>flavors := insert s (flavors d)\<rparr>"
  from Cons.prems have step: "add_flavor d (PyStr s) = (Inr (), ?d')"
    by (simp add: add_flavor_fresh)
  from Cons.prems have "add_each ?d' (map PyStr ss @ rest)
      = add_each (?d'\<lparr>flavors := flavors ?d' \<union> set ss\<rparr>) rest"
    by (intro Cons.IH) auto
  with step show ?case by simp
qed

lemma set_flavors_list: "set_flavors d (PyList vs) = add_each (d\<lparr>flavors := {}\<rparr>) vs"
  by (simp add: set_flavors_def)

lemma set_flavors_all:
  "distinct ss \<Longrightarrow> set ss \<subseteq> set valid_flavors
   \<Longrightarrow> set_flavors d (PyList (map PyStr ss)) = (Inr (), d\<lparr>flavors := set ss\<rparr>)"
  using add_each_prefix [of ss "d\<lparr>flavors := {}\<rparr>" "[]"] by (simp add: set_flavors_list)

lemma set_flavors_invalid:
  "distinct ss \<Longrightarrow> set ss \<subseteq> set valid_flavors \<Longrightarrow> v \<notin> PyStr ` set valid_flavors
   \<Longrightarrow> set_flavors d (PyList (map PyStr ss @ v # rest)) = (Inl InvalidValue, d\<lparr>flavors := set ss\<rparr>)"
  using add_each_prefix [of ss "d\<lparr>flavors := {}\<rparr>" "v # rest"]
  by (simp add: set_flavors_list add_flavor_invalid)

lemma set_flavors_duplicate:
  "distinct ss \<Longrightarrow> set ss \<subseteq> set valid_flavors \<Longrightarrow> s \<in> set ss
   \<Longrightarrow> set_flavors d (PyList (map PyStr ss @ PyStr s # rest)) = (Inl Duplicate, d\<lparr>flavors := set ss\<rparr>)"
  using add_each_prefix [of ss "d\<lparr>flavors := {}\<rparr>" "PyStr s # rest"]
  by (auto simp: set_flavors_list add_flavor_duplicate)

lemma sequence_shape:
  "\<exists>ss. distinct ss \<and> set ss \<subseteq> set valid_flavors
        \<and> (vs = map PyStr ss
            \<or> (\<exists>v rest. vs = map PyStr ss @ v # rest
                  \<and> (v \<notin> PyStr ` set valid_flavors \<or> v \<in> PyStr ` set ss)))"
proof (induction vs rule: rev_induct)
  case Nil
  have "distinct ([] :: string list) \<and> set [] \<subseteq> set valid_flavors \<and> [] = map PyStr []"
    by simp
  then show ?case by blast
next
  case (snoc x vs)
  then obtain ss where ss: "distinct ss" "set ss \<subseteq> set valid_flavors"
    and alt: "vs = map PyStr ss
              \<or> (\<exists>v rest. vs = map PyStr ss @ v # rest
                    \<and> (v \<notin> PyStr ` set valid_flavors \<or> v \<in> PyStr ` set ss))"
    by blast
  from alt show ?case
  proof
    assume all: "vs = map PyStr ss"
    show ?thesis
    proof (cases "x \<notin> PyStr ` set valid_flavors \<or> x \<in> PyStr ` set ss")
      case True
      with all have "vs @ [x] = map PyStr ss @ x # []
          \<and> (x \<notin> PyStr ` set valid_flavors \<or> x \<in> PyStr ` set ss)"
        by simp
      with ss show ?thesis by blast
    next
      case False
      then obtain s where s: "x = PyStr s" "s \<in> set valid_flavors" "s \<notin> set ss"
        by auto
      with ss all have "distinct (ss @ [s]) \<and> set (ss @ [s]) \<subseteq> set valid_flavors
          \<and> vs @ [x] = map PyStr (ss @ [s])"
        by simp
      then show ?thesis by blast
    qed
  next
    assume "\<exists>v rest. vs = map PyStr ss @ v # rest
              \<and> (v \<notin> PyStr ` set valid_flavors \<or> v \<in> PyStr ` set ss)"
    then obtain v rest where "vs = map PyStr ss @ v # rest"
      and bad: "v \<notin> PyStr ` set valid_flavors \<or> v \<in> PyStr ` set ss"
      by blast
    then have "vs @ [x] = map PyStr ss @ v # (rest @ [x])"
      by simp
    with ss bad show ?thesis by blast
  qed
qed

text \<open>
  Claim C1. \<^verbatim>\<open>set_flavors\<close> clears the flavors and then adds the elements of the sequence
  in order, each validated as \<^verbatim>\<open>add_flavor\<close> validates it. Every sequence is a run of
  distinct valid flavors, followed by nothing or by a first element that is invalid or
  repeats a flavor of the run: the call returns in the first case, and in the second it
  raises at that element (InvalidValue, or Duplicate), and the flavors of the run stay in
  the set. In particular \<^verbatim>\<open>set_flavors(["lemon","lemon"])\<close> raises Duplicate and leaves
  exactly lemon, and \<^verbatim>\<open>set_flavors(["lemon","cherry"])\<close> on a drink that has mint leaves
  exactly lemon and cherry.
\<close>

theorem set_flavors_no_rollback:
  "set_flavors d (PyList vs) = add_each (d\<lparr>flavors := {}\<rparr>) vs
   \<and> add_each d' (x # xs)
       = (if fst (add_flavor d' x) = Inr () then add_each (snd (add_flavor d' x)) xs
          else add_flavor d' x)
   \<and> (\<exists>ss. distinct ss \<and> set ss \<subseteq> {''lemon'', ''cherry'', ''strawberry'', ''mint'', ''blueberry'', ''lime''}
         \<and> (vs = map PyStr ss
             \<or> (\<exists>v rest. vs = map PyStr ss @ v # rest
                   \<and> (v \<notin> PyStr ` {''lemon'', ''cherry'', ''strawberry'', ''mint'', ''blueberry'', ''lime''}
                       \<or> v \<in> PyStr ` set ss))))
   \<and> (distinct ss \<and> set ss \<subseteq> {''lemon'', ''cherry'', ''strawberry'', ''mint'', ''blueberry'', ''lime''}
        \<longrightarrow> set_flavors d (PyList (map PyStr ss)) = (Inr (), d\<lparr>flavors := set ss\<rparr>)
            \<and> (v \<notin> PyStr ` {''lemon'', ''cherry'', ''strawberry'', ''mint'', ''blueberry'', ''lime''}
                 \<longrightarrow> set_flavors d (PyList (map PyStr ss @ v # rest))
                       = (Inl InvalidValue, d\<lparr>flavors := set ss\<rparr>))
            \<and> (s \<in> set ss
                 \<longrightarrow> set_flavors d (PyList (map PyStr ss @ PyStr s # rest))
                       = (Inl Duplicate, d\<lparr>flavors := set ss\<rparr>)))
   \<and> set_flavors d (PyList [PyStr ''lemon'', PyStr ''lemon'']) = (Inl Duplicate, d\<lparr>flavors := {''lemon''}\<rparr>)
   \<and> (flavors d = {''mint''}
        \<longrightarrow> set_flavors d (PyList [PyStr ''lemon'', PyStr ''cherry''])
              = (Inr (), d\<lparr>flavors := {''lemon'', ''cherry''}\<rparr>))"
proof -
  have step: "add_each d' (x # xs)
       = (if fst (add_flavor d' x) = Inr () then add_each (snd (add_flavor d' x)) xs
          else add_flavor d' x)"
  proof (cases "add_flavor d' x")
    case (Pair r d'')
    then show ?thesis by (cases r) simp_all
  qed
  have lemon: "''lemon'' \<in> set valid_flavors" and cherry: "''cherry'' \<in> set valid_flavors"
    by (simp_all add: valid_flavors_def)
  have ex1: "set_flavors d (PyList [PyStr ''lemon'', PyStr ''lemon''])
               = (Inl Duplicate, d\<lparr>flavors := {''lemon''}\<rparr>)"
    using set_flavors_duplicate [of "[''lemon'']" "''lemon''" d "[]"] lemon by simp
  have ex2: "set_flavors d (PyList [PyStr ''lemon'', PyStr ''cherry''])
               = (Inr (), d\<lparr>flavors := {''lemon'', ''cherry''}\<rparr>)"
    using set_flavors_all [of "[''lemon'', ''cherry'']" d] lemon cherry by simp
  have general: "distinct ss \<and> set ss \<subseteq> set valid_flavors
        \<longrightarrow> set_flavors d (PyList (map PyStr ss)) = (Inr (), d\<lparr>flavors := set ss\<rparr>)
            \<and> (v \<notin> PyStr ` set valid_flavors
                 \<longrightarrow> set_flavors d (PyList (map PyStr ss @ v # rest))
                       = (Inl InvalidValue, d\<lparr>flavors := set ss\<rparr>))
            \<and> (s \<in> set ss
                 \<longrightarrow> set_flavors d (PyList (map PyStr ss @ PyStr s # rest))
                       = (Inl Duplicate, d\<lparr>flavors := set ss\<rparr>))"
    by (simp add: set_flavors_all set_flavors_invalid set_flavors_duplicate)
  have ex2': "flavors d = {''mint''}
        \<longrightarrow> set_flavors d (PyList [PyStr ''lemon'', PyStr ''cherry''])
              = (Inr (), d\<lparr>flavors := {''lemon'', ''cherry''}\<rparr>)"
    using ex2 by simp
  note shape = sequence_shape [of vs]
  note first = set_flavors_list [of d vs]
  show ?thesis
    unfolding set_valid_flavors [symmetric]
    by (intro conjI) (fact first step shape general ex1 ex2')+
qed

theorem set_flavors_no_rollback_witness:
  "set_flavors \<lparr>base = None, flavors = {''mint''}\<rparr> (PyList [PyStr ''lemon'', PyStr ''cherry''])
     = (Inr (), \<lparr>base = None, flavors = {''lemon'', ''cherry''}\<rparr>)
   \<and> set_flavors \<lparr>base = None, flavors = {''mint''}\<rparr>
         (PyList [PyStr ''lime'', PyStr ''cherry'', PyInt 3, PyStr ''mint''])
     = (Inl InvalidValue, \<lparr>base = None, flavors = {''lime'', ''cherry''}\<rparr>)
   \<and> set_flavors \<lparr>base = None, flavors = {''mint''}\<rparr>
         (PyList [PyStr ''lime'', PyStr ''cherry'', PyStr ''lime'', PyStr ''mint''])
     = (Inl Duplicate, \<lparr>base = None, flavors = {''lime'', ''cherry''}\<rparr>)"
proof -
  let ?d = "\<lparr>base = None, flavors = {''mint''}\<rparr>"
  note run = set_flavors_no_rollback
          [where d = ?d and ss = "[''lime'', ''cherry'']" and v = "PyInt 3" and s = "''lime''"
             and rest = "[PyStr ''mint'']",
           THEN conjunct2, THEN conjunct2, THEN conjunct2, THEN conjunct1, THEN mp]
  note mint = set_flavors_no_rollback
          [where d = ?d, THEN conjunct2, THEN conjunct2, THEN conjunct2, THEN conjunct2,
           THEN conjunct2, THEN mp]
  have h: "distinct [''lime'', ''cherry'']
      \<and> set [''lime'', ''cherry''] \<subseteq> {''lemon'', ''cherry'', ''strawberry'', ''mint'', ''blueberry'', ''lime''}"
    by simp
  have i: "PyInt 3 \<notin> PyStr ` {''lemon'', ''cherry'', ''strawberry'', ''mint'', ''blueberry'', ''lime''}"
    by auto
  have m: "flavors ?d = {''mint''}"
    by simp
  from run [OF h] i mint [OF m] show ?thesis
    by simp
qed

section \<open>Properties of Order\<close>

subsection \<open>remove_item\<close>

lemma pop_take_drop: "i < length xs \<Longrightarrow> pop xs i = take i xs @ drop (Suc i) xs"
proof (induction xs arbitrary: i)
  case Nil
  then show ?case by simp
next
  case (Cons x xs)
  then show ?case by (cases i) simp_all
qed

text \<open>
  Claim C7. \<^verbatim>\<open>remove_item(index)\<close> raises OutOfRange for a negative index and for an
  index that is at least the number of items, so for -1 and for the number of items on
  every order; otherwise it removes the item at that position: the items before it stay
  where they are and the items after it move one position down.
\<close>

theorem remove_item_cases:
  "(index < 0 \<or> index \<ge> get_num_items ord \<longrightarrow> remove_item ord index = (Inl OutOfRange, ord))
   \<and> remove_item ord (- 1) = (Inl OutOfRange, ord)
   \<and> remove_item ord (get_num_items ord) = (Inl OutOfRange, ord)
   \<and> (0 \<le> index \<and> index < get_num_items ord \<longrightarrow>
        fst (remove_item ord index) = Inr ()
        \<and> items (snd (remove_item ord index))
            = take (nat index) (items ord) @ drop (nat index + 1) (items ord)
        \<and> length (items (snd (remove_item ord index))) = length (items ord) - 1
        \<and> (\<forall>j < nat index. items (snd (remove_item ord index)) ! j = items ord ! j)
        \<and> (\<forall>j. nat index \<le> j \<and> j < length (items ord) - 1
              \<longrightarrow> items (snd (remove_item ord index)) ! j = items ord ! (j + 1)))"
proof -
  have out: "remove_item ord i = (Inl OutOfRange, ord)" if "i < 0 \<or> i \<ge> get_num_items ord" for i
    using that by (auto simp: remove_item_def get_num_items_def)
  have inside: "fst (remove_item ord index) = Inr ()
        \<and> items (snd (remove_item ord index))
            = take (nat index) (items ord) @ drop (nat index + 1) (items ord)
        \<and> length (items (snd (remove_item ord index))) = length (items ord) - 1
        \<and> (\<forall>j < nat index. items (snd (remove_item ord index)) ! j = items ord ! j)
        \<and> (\<forall>j. nat index \<le> j \<and> j < length (items ord) - 1
              \<longrightarrow> items (snd (remove_item ord index)) ! j = items ord ! (j + 1))"
    if h: "0 \<le> index \<and> index < get_num_items ord"
  proof -
    let ?i = "nat index" and ?xs = "items ord"
    from h have i: "?i < length ?xs"
      unfolding get_num_items_def by linarith
    from h have r: "remove_item ord index = (Inr (), ord\<lparr>items := pop ?xs ?i\<rparr>)"
      by (auto simp: remove_item_def get_num_items_def)
    have p: "pop ?xs ?i = take ?i ?xs @ drop (?i + 1) ?xs"
      using pop_take_drop [OF i] by simp
    have before: "(take ?i ?xs @ drop (?i + 1) ?xs) ! j = ?xs ! j" if "j < ?i" for j
      using that i by (simp add: nth_append)
    have after: "(take ?i ?xs @ drop (?i + 1) ?xs) ! j = ?xs ! (j + 1)"
      if "?i \<le> j" "j < length ?xs - 1" for j
    proof -
      from that i have "(take ?i ?xs @ drop (?i + 1) ?xs) ! j = drop (?i + 1) ?xs ! (j - ?i)"
        by (simp add: nth_append)
      also from that i have "\<dots> = ?xs ! (?i + 1 + (j - ?i))"
        by (intro nth_drop) simp
      also from that have "?i + 1 + (j - ?i) = j + 1" by simp
      finally show ?thesis .
    qed
    have len: "length (take ?i ?xs @ drop (?i + 1) ?xs) = length ?xs - 1"
      using i by simp
    have st: "items (snd (remove_item ord index)) = take ?i ?xs @ drop (?i + 1) ?xs"
      by (simp add: r p)
    have "fst (remove_item ord index) = Inr ()"
      by (simp add: r)
    moreover note st
    moreover have "length (items (snd (remove_item ord index))) = length ?xs - 1"
      unfolding st by (rule len)
    moreover have "\<forall>j < ?i. items (snd (remove_item ord index)) ! j = ?xs ! j"
      unfolding st using before by blast
    moreover have "\<forall>j. ?i \<le> j \<and> j < length ?xs - 1
              \<longrightarrow> items (snd (remove_item ord index)) ! j = ?xs ! (j + 1)"
      unfolding st using after by blast
    ultimately show ?thesis by (intro conjI)
  qed
  have o1: "index < 0 \<or> index \<ge> get_num_items ord \<longrightarrow> remove_item ord index = (Inl OutOfRange, ord)"
    using out [of index] by (rule impI)
  have o2: "remove_item ord (- 1) = (Inl OutOfRange, ord)"
    by (rule out) simp
  have o3: "remove_item ord (get_num_items ord) = (Inl OutOfRange, ord)"
    by (rule out) simp
  from inside have o4: "0 \<le> index \<and> index < get_num_items ord \<longrightarrow>
        fst (remove_item ord index) = Inr ()
        \<and> items (snd (remove_item ord index))
            = take (nat index) (items ord) @ drop (nat index + 1) (items ord)
        \<and> length (items (snd (remove_item ord index))) = length (items ord) - 1
        \<and> (\<forall>j < nat index. items (snd (remove_item ord index)) ! j = items ord ! j)
        \<and> (\<forall>j. nat index \<le> j \<and> j < length (items ord) - 1
              \<longrightarrow> items (snd (remove_item ord index)) ! j = items ord ! (j + 1))"
    by (rule impI)
  from o1 o2 o3 o4 show ?thesis by (intro conjI)
qed

theorem remove_item_cases_witness:
  "remove_item \<lparr>items = [Drink_init, \<lparr>base = Some ''water'', flavors = {}\<rparr>, Drink_init]\<rparr> 1
     = (Inr (), \<lparr>items = [Drink_init, Drink_init]\<rparr>)
   \<and> remove_item \<lparr>items = [Drink_init]\<rparr> 1 = (Inl OutOfRange, \<lparr>items = [Drink_init]\<rparr>)
   \<and> remove_item \<lparr>items = [Drink_init]\<rparr> (- 1) = (Inl OutOfRange, \<lparr>items = [Drink_init]\<rparr>)"
proof -
  let ?o = "\<lparr>items = [Drink_init, \<lparr>base = Some ''water'', flavors = {}\<rparr>, Drink_init]\<rparr>"
  have a: "(0::int) \<le> 1 \<and> 1 < get_num_items ?o"
    by (simp add: get_num_items_def)
  have b: "(1::int) < 0 \<or> 1 \<ge> get_num_items \<lparr>items = [Drink_init]\<rparr>"
    by (simp add: get_num_items_def)
  from remove_item_cases [of 1 ?o] a
  have "fst (remove_item ?o 1) = Inr ()"
    and "items (snd (remove_item ?o 1)) = [Drink_init, Drink_init]"
    by simp_all
  then have "remove_item ?o 1 = (Inr (), \<lparr>items = [Drink_init, Drink_init]\<rparr>)"
    by (cases "remove_item ?o 1") simp
  with remove_item_cases [of 1 "\<lparr>items = [Drink_init]\<rparr>"] b show ?thesis
    by simp
qed

subsection \<open>add_item\<close>

text \<open>
  Claim C8. \<^verbatim>\<open>add_item(x)\<close> raises TypeMismatch for an \<open>x\<close> that is not a Drink and
  leaves the order as it is; a Drink is appended at the end, after the items the order
  had, which keep their positions.
\<close>

theorem add_item_cases:
  "((\<forall>d. x \<noteq> PyDrink d) \<longrightarrow> add_item ord x = (Inl TypeMismatch, ord))
   \<and> add_item ord (PyStr ''not a drink'') = (Inl TypeMismatch, ord)
   \<and> add_item ord (PyDrink d) = (Inr (), ord\<lparr>items := items ord @ [d]\<rparr>)
   \<and> take (length (items ord)) (items (snd (add_item ord (PyDrink d)))) = items ord
   \<and> items (snd (add_item ord (PyDrink d))) ! length (items ord) = d
   \<and> length (items (snd (add_item ord (PyDrink d)))) = length (items ord) + 1"
  by (cases x) simp_all

theorem add_item_cases_witness:
  "add_item Order_init (PyInt 7) = (Inl TypeMismatch, Order_init)
   \<and> add_item \<lparr>items = [\<lparr>base = Some ''water'', flavors = {}\<rparr>]\<rparr> (PyDrink Drink_init)
       = (Inr (), \<lparr>items = [\<lparr>base = Some ''water'', flavors = {}\<rparr>, Drink_init]\<rparr>)"
  using add_item_cases [of "PyInt 7" Order_init Drink_init]
        add_item_cases [of "PyInt 7" "\<lparr>items = [\<lparr>base = Some ''water'', flavors = {}\<rparr>]\<rparr>" Drink_init]
  by simp

subsection \<open>get_total\<close>

lemma bit_length_bound: "n < 2 ^ k \<Longrightarrow> bit_length n \<le> k"
proof (induction k arbitrary: n)
  case 0
  then have "n = 0" by simp
  then show ?case by (simp add: bit_length.simps)
next
  case (Suc k)
  show ?case
  proof (cases "n = 0")
    case True
    then show ?thesis by (simp add: bit_length.simps)
  next
    case False
    from Suc.prems have "n div 2 < 2 ^ k" by simp
    then have "bit_length (n div 2) \<le> k" by (rule Suc.IH)
    with False show ?thesis by (subst bit_length.simps) simp
  qed
qed

lemma bit_length_exact: "2 ^ k \<le> n \<Longrightarrow> n < 2 ^ Suc k \<Longrightarrow> bit_length n = Suc k"
proof (induction k arbitrary: n)
  case 0
  then have "n = 1" by simp
  then show ?case by (simp add: bit_length.simps [of "Suc 0"] bit_length.simps [of 0])
next
  case (Suc k)
  from Suc.prems have "2 ^ k \<le> n div 2" "n div 2 < 2 ^ Suc k" by simp_all
  then have "bit_length (n div 2) = Suc k" by (rule Suc.IH)
  moreover from Suc.prems have "n \<noteq> 0" by auto
  ultimately show ?case by (subst bit_length.simps) simp
qed

lemma round_binary64_exact: "n < 2 ^ 53 \<Longrightarrow> round_binary64 n = n"
  using bit_length_bound [of n 53] by (simp add: round_binary64_def)

lemma bit_length_2_53_1: "bit_length 9007199254740993 = 54"
  using bit_length_exact [of 53 9007199254740993] by simp

lemma bit_length_5_2_53: "bit_length 45035996273704960 = 56"
  using bit_length_exact [of 55 45035996273704960] by simp

lemma round_binary64_2_53_1: "round_binary64 9007199254740993 = 9007199254740992"
  by (simp add: round_binary64_def bit_length_2_53_1)

lemma round_binary64_5_2_53: "round_binary64 45035996273704960 = 45035996273704960"
  by (simp add: round_binary64_def bit_length_5_2_53)

lemma get_total_exact:
  assumes "length (items ord) * 5 < 2 ^ 53"
  shows "get_total ord = of_nat (length (items ord)) * 5"
proof -
  from assms have "length (items ord) < 2 ^ 53" by simp
  then have "round_binary64 (length (items ord)) = length (items ord)"
    by (rule round_binary64_exact)
  moreover from assms have "round_binary64 (length (items ord) * 5) = length (items ord) * 5"
    by (rule round_binary64_exact)
  ultimately show ?thesis by (simp add: get_total_def)
qed

lemma str_nat_digit: "n < 10 \<Longrightarrow> str_nat n = [digit_char n]"
  by (subst str_nat.simps) simp

lemma str_nat_step: "10 \<le> n \<Longrightarrow> str_nat n = str_nat (n div 10) @ [digit_char (n mod 10)]"
  by (subst str_nat.simps) simp

lemma round_half_even_nat: "round_half_even (of_nat m) = int m"
  by (simp add: round_half_even_def)

lemma digit_char_0: "digit_char 0 = CHR ''0''"
  by (simp add: digit_char_def)

lemma format_2f_nat: "format_2f (of_nat m) = str_nat m @ ''.00''"
proof -
  have "\<bar>of_nat m :: rat\<bar> * 100 = of_nat (m * 100)" by simp
  then have c: "nat (round_half_even (\<bar>of_nat m\<bar> * 100)) = m * 100"
    by (simp only: round_half_even_nat nat_int)
  have d: "m * 100 div 10 mod 10 = 0"
    by presburger
  show ?thesis
    unfolding format_2f_def Let_def c d by (simp add: digit_char_0)
qed

text \<open>
  Claim C4. For every order whose list a machine can hold, \<^verbatim>\<open>get_total()\<close> is exactly
  five times \<^verbatim>\<open>get_num_items()\<close>, and the format \<^verbatim>\<open>:.2f\<close> shows that number followed
  by \<^verbatim>\<open>.00\<close>; the total is computed from the items the order has at the call, so that
  it is 5 higher after an item is added; an empty order yields 0 and an order of three
  drinks yields 15. The hypothesis bounds the number of items by \<open>2 ^ 53 / 5\<close>: the list
  of a larger order would take more than 12 PiB for its references alone.
\<close>

theorem get_total_flat_rate:
  "(length (items ord) * 5 < 2 ^ 53
      \<longrightarrow> get_total ord = of_int (get_num_items ord) * 5
          \<and> format_2f (get_total ord) = str_nat (nat (get_num_items ord) * 5) @ ''.00'')
   \<and> ((length (items ord) + 1) * 5 < 2 ^ 53
      \<longrightarrow> get_total (snd (add_item ord (PyDrink d))) = get_total ord + 5)
   \<and> (items ord = [] \<longrightarrow> get_total ord = 0)
   \<and> (length (items ord) = 3 \<longrightarrow> get_total ord = 15)"
proof (intro conjI impI)
  assume b: "length (items ord) * 5 < 2 ^ 53"
  then show "get_total ord = of_int (get_num_items ord) * 5"
    by (simp add: get_total_exact get_num_items_def)
  from b have "get_total ord = of_nat (length (items ord) * 5)"
    by (simp add: get_total_exact)
  then show "format_2f (get_total ord) = str_nat (nat (get_num_items ord) * 5) @ ''.00''"
    by (simp only: format_2f_nat get_num_items_def nat_int)
next
  assume b: "(length (items ord) + 1) * 5 < 2 ^ 53"
  then have "length (items (snd (add_item ord (PyDrink d)))) * 5 < 2 ^ 53"
    by simp
  then have "get_total (snd (add_item ord (PyDrink d)))
      = of_nat (length (items (snd (add_item ord (PyDrink d))))) * 5"
    by (rule get_total_exact)
  moreover from b have "get_total ord = of_nat (length (items ord)) * 5"
    by (intro get_total_exact) simp
  ultimately show "get_total (snd (add_item ord (PyDrink d))) = get_total ord + 5"
    by simp
next
  assume "items ord = []"
  then show "get_total ord = 0"
    using get_total_exact [of ord] by simp
next
  assume "length (items ord) = 3"
  then show "get_total ord = 15"
    using get_total_exact [of ord] by simp
qed

theorem get_total_flat_rate_witness:
  "get_total \<lparr>items = [Drink_init, Drink_init, Drink_init]\<rparr> = 15
   \<and> get_total \<lparr>items = [Drink_init, Drink_init, Drink_init, Drink_init]\<rparr> = 20
   \<and> get_total Order_init = 0
   \<and> format_2f (get_total \<lparr>items = [Drink_init, Drink_init, Drink_init]\<rparr>) = ''15.00''"
proof -
  let ?o = "\<lparr>items = [Drink_init, Drink_init, Drink_init]\<rparr>"
  have b: "length (items ?o) * 5 < 2 ^ 53" "(length (items ?o) + 1) * 5 < 2 ^ 53"
    by simp_all
  have e: "items Order_init = []"
    by (simp add: Order_init_def)
  have s: "str_nat 15 = ''15''"
    by (simp add: str_nat_digit str_nat_step digit_char_def)
  note exact = get_total_flat_rate [of ?o Drink_init, THEN conjunct1, THEN mp, OF b(1)]
  note fresh = get_total_flat_rate [of ?o Drink_init, THEN conjunct2, THEN conjunct1, THEN mp, OF b(2)]
  note empty = get_total_flat_rate [of Order_init Drink_init, THEN conjunct2, THEN conjunct2,
      THEN conjunct1, THEN mp, OF e]
  from exact [THEN conjunct1] have t3: "get_total ?o = 15"
    by (simp add: get_num_items_def)
  from exact [THEN conjunct2] have f3: "format_2f (get_total ?o) = ''15.00''"
    by (simp add: get_num_items_def s)
  from fresh t3 have t4: "get_total \<lparr>items = [Drink_init, Drink_init, Drink_init, Drink_init]\<rparr> = 20"
    by simp
  note t3 t4 empty f3
  then show ?thesis by (intro conjI)
qed

text \<open>
  The bound is there for the lists of the model, which have no bound on their length:
  the total is a binary64 number, and a product that needs more than 53 binary digits is
  rounded, as for \<open>2 ^ 53 + 1 = 9007199254740993\<close> items.
\<close>

lemma get_total_rounds_beyond_bound:
  "get_total \<lparr>items = replicate 9007199254740993 Drink_init\<rparr> = 45035996273704960"
  by (simp add: get_total_def round_binary64_2_53_1 round_binary64_5_2_53)

subsection \<open>get_receipt\<close>

lemma receipt_loop_map:
  "receipt_loop en idx ds acc
     = acc @ map (\<lambda>k. receipt_line (en (idx + k)) (idx + k) (ds ! k)) [0..<length ds]"
proof (induction ds arbitrary: idx acc)
  case Nil
  show ?case by simp
next
  case (Cons d ds)
  have "map (\<lambda>k. receipt_line (en (idx + k)) (idx + k) ((d # ds) ! k)) [0..<length (d # ds)]
      = receipt_line (en idx) idx d
        # map (\<lambda>k. receipt_line (en (idx + 1 + k)) (idx + 1 + k) (ds ! k)) [0..<length ds]"
    by (simp add: map_upt_Suc del: upt_Suc)
  with Cons.IH [of "idx + 1" "acc @ [receipt_line (en idx) idx d]"] show ?case
    by simp
qed

lemma receipt_lines_eq:
  "receipt_lines en ord
     = [''--- Order Receipt ---'']
       @ map (\<lambda>k. receipt_line (en (k + 1)) (k + 1) (items ord ! k)) [0..<length (items ord)]
       @ [''Total Drinks: '' @ str_nat (length (items ord)),
          ''Total Cost: $'' @ format_2f (get_total ord)]"
  by (simp add: receipt_lines_def receipt_loop_map get_num_items_def)

lemma receipt_lines_nth:
  assumes "k < length (items ord)"
  shows "receipt_lines en ord ! (k + 1) = receipt_line (en (k + 1)) (k + 1) (items ord ! k)"
  using assms by (simp add: receipt_lines_eq nth_append)

lemma join_str_nonempty: "xs \<noteq> [] \<Longrightarrow> [] \<notin> set xs \<Longrightarrow> join_str sep xs \<noteq> []"
  by (induction sep xs rule: join_str.induct) auto

lemma receipt_line_spec:
  assumes "set (en (flavors d)) = flavors d" and "[] \<notin> flavors d"
  shows "receipt_line en n d = spec_line ''None'' en n d"
proof (cases "flavors d = {}")
  case True
  with assms have "en (flavors d) = []" by simp
  with True show ?thesis
    by (simp add: receipt_line_def spec_line_def get_flavors_def get_base_def split: option.split)
next
  case False
  with assms have "en (flavors d) \<noteq> []" "[] \<notin> set (en (flavors d))" by auto
  then have "join_str '', '' (en (flavors d)) \<noteq> []" by (rule join_str_nonempty)
  with False show ?thesis
    by (simp add: receipt_line_def spec_line_def get_flavors_def get_base_def split: option.split)
qed

lemma drink_inv_no_empty_flavor: "drink_inv d \<Longrightarrow> [] \<notin> flavors d"
  by (auto simp: drink_inv_def valid_flavors_def)

lemma str_nat_digits: "str_nat n \<noteq> [] \<and> list_all is_digit (str_nat n)"
proof (induction n rule: str_nat.induct)
  case (1 n)
  have d: "is_digit (digit_char k)" if "k < 10" for k
  proof -
    from that have "k \<in> {0, 1, 2, 3, 4, 5, 6, 7, 8, 9}" by auto
    then show ?thesis by (auto simp: is_digit_def digit_char_def)
  qed
  show ?case
  proof (cases "n < 10")
    case True
    then show ?thesis by (simp add: str_nat_digit d)
  next
    case False
    with 1 have "list_all is_digit (str_nat (n div 10))" by simp
    moreover have "is_digit (digit_char (n mod 10))" by (rule d) simp
    ultimately show ?thesis using False by (simp add: str_nat_step)
  qed
qed

lemma two_decimals_total: "two_decimals (format_2f (get_total ord))"
proof -
  have "get_total ord = of_nat (round_binary64 (round_binary64 (length (items ord)) * 5))"
    by (simp add: get_total_def)
  then obtain m where "get_total ord = of_nat m" ..
  then have "format_2f (get_total ord) = str_nat m @ ''.00''"
    by (simp only: format_2f_nat)
  then show ?thesis
    using str_nat_digits [of m] by (simp add: two_decimals_def is_digit_def)
qed

text \<open>
  Claim C5. \<^verbatim>\<open>get_receipt()\<close> returns the fixed message for an order without items.
  Otherwise it joins, with newlines, the header, one line per drink and the two total
  lines; when every drink of the order satisfies the invariant of drinks and its flavors
  are listed in some order, this is the receipt as the specification words it, with the
  text \<^verbatim>\<open>None\<close> for an unset base. The total cost is written with exactly two digits
  after the point.
\<close>

theorem get_receipt_format:
  "(items ord = [] \<longrightarrow> get_receipt en ord = ''Order is empty. Add some drinks!'')
   \<and> (items ord \<noteq> [] \<longrightarrow>
         get_receipt en ord = join_str [CHR 0x0A] (receipt_lines en ord)
         \<and> length (receipt_lines en ord) = length (items ord) + 3)
   \<and> ((\<forall>k < length (items ord).
          drink_inv (items ord ! k)
          \<and> set (en (k + 1) (flavors (items ord ! k))) = flavors (items ord ! k))
        \<longrightarrow> get_receipt en ord = spec_receipt ''None'' en ord)
   \<and> two_decimals (format_2f (get_total ord))"
proof (intro conjI impI)
  assume "items ord = []"
  then show "get_receipt en ord = ''Order is empty. Add some drinks!''"
    by (simp add: get_receipt_def)
next
  assume "items ord \<noteq> []"
  then show "get_receipt en ord = join_str [CHR 0x0A] (receipt_lines en ord)"
    by (simp add: get_receipt_def)
next
  show "length (receipt_lines en ord) = length (items ord) + 3"
    by (simp add: receipt_lines_eq)
next
  assume wf: "\<forall>k < length (items ord).
          drink_inv (items ord ! k)
          \<and> set (en (k + 1) (flavors (items ord ! k))) = flavors (items ord ! k)"
  have "receipt_line (en (k + 1)) (k + 1) (items ord ! k)
          = spec_line ''None'' (en (k + 1)) (k + 1) (items ord ! k)"
    if "k \<in> set [0..<length (items ord)]" for k
  proof -
    from that wf have "drink_inv (items ord ! k)"
      and "set (en (k + 1) (flavors (items ord ! k))) = flavors (items ord ! k)"
      by simp_all
    then show ?thesis
      by (intro receipt_line_spec drink_inv_no_empty_flavor)
  qed
  then have "map (\<lambda>k. receipt_line (en (k + 1)) (k + 1) (items ord ! k)) [0..<length (items ord)]
      = map (\<lambda>k. spec_line ''None'' (en (k + 1)) (k + 1) (items ord ! k)) [0..<length (items ord)]"
    by (intro map_cong refl)
  then show "get_receipt en ord = spec_receipt ''None'' en ord"
    unfolding get_receipt_def spec_receipt_def receipt_lines_eq by (simp only:)
next
  show "two_decimals (format_2f (get_total ord))"
    by (rule two_decimals_total)
qed

theorem get_receipt_format_witness:
  "get_receipt (\<lambda>n S. filter (\<lambda>f. f \<in> S) valid_flavors)
       \<lparr>items = [\<lparr>base = Some ''water'', flavors = {''mint'', ''lemon''}\<rparr>, Drink_init]\<rparr>
     = ''--- Order Receipt ---'' @ [CHR 0x0A]
       @ ''1. Base: water, Flavors: lemon, mint'' @ [CHR 0x0A]
       @ ''2. Base: None, Flavors: None'' @ [CHR 0x0A]
       @ ''Total Drinks: 2'' @ [CHR 0x0A]
       @ ''Total Cost: $10.00''
   \<and> get_receipt (\<lambda>n S. []) Order_init = ''Order is empty. Add some drinks!''"
proof -
  let ?en = "\<lambda>(n::nat) S. filter (\<lambda>f. f \<in> S) valid_flavors"
  let ?d = "\<lparr>base = Some ''water'', flavors = {''mint'', ''lemon''}\<rparr>"
  let ?o = "\<lparr>items = [?d, Drink_init]\<rparr>"
  have inv: "drink_inv ?d" "drink_inv Drink_init"
    by (simp_all add: drink_inv_def valid_bases_def valid_flavors_def Drink_init_def)
  have en1: "set (?en 1 (flavors ?d)) = flavors ?d"
    by (simp add: valid_flavors_def insert_commute)
  have en2: "set (?en 2 (flavors Drink_init)) = flavors Drink_init"
    by (simp add: Drink_init_def)
  have wf: "\<forall>k < length (items ?o).
          drink_inv (items ?o ! k)
          \<and> set (?en (k + 1) (flavors (items ?o ! k))) = flavors (items ?o ! k)"
  proof (intro allI impI)
    fix k assume "k < length (items ?o)"
    then have "k = 0 \<or> k = 1" by auto
    then show "drink_inv (items ?o ! k)
          \<and> set (?en (k + 1) (flavors (items ?o ! k))) = flavors (items ?o ! k)"
    proof
      assume "k = 0"
      with inv(1) en1 show ?thesis by simp
    next
      assume "k = 1"
      with inv(2) en2 show ?thesis by simp
    qed
  qed
  have tot: "get_total ?o = of_nat 10"
    using get_total_exact [of ?o] by simp
  have cost: "format_2f (get_total ?o) = ''10.00''"
    unfolding tot format_2f_nat by (simp add: str_nat_digit str_nat_step digit_char_def)
  have l1: "spec_line ''None'' (?en (0 + 1)) (0 + 1) (items ?o ! 0)
      = ''1. Base: water, Flavors: lemon, mint''"
    by (simp add: spec_line_def valid_flavors_def str_nat_digit digit_char_def)
  have l2: "spec_line ''None'' (?en (1 + 1)) (1 + 1) (items ?o ! 1)
      = ''2. Base: None, Flavors: None''"
    by (simp add: spec_line_def Drink_init_def str_nat_digit digit_char_def)
  have up: "[0..<length (items ?o)] = [0, 1]"
    by (simp add: upt_rec)
  have lines: "map (\<lambda>k. spec_line ''None'' (?en (k + 1)) (k + 1) (items ?o ! k)) [0..<length (items ?o)]
      = [''1. Base: water, Flavors: lemon, mint'', ''2. Base: None, Flavors: None'']"
    unfolding up by (simp only: list.map l1 l2)
  have n2: "str_nat (length (items ?o)) = ''2''"
    by (simp add: str_nat_digit digit_char_def)
  have ne: "items ?o \<noteq> []"
    by simp
  have spec: "spec_receipt ''None'' ?en ?o
     = ''--- Order Receipt ---'' @ [CHR 0x0A]
       @ ''1. Base: water, Flavors: lemon, mint'' @ [CHR 0x0A]
       @ ''2. Base: None, Flavors: None'' @ [CHR 0x0A]
       @ ''Total Drinks: 2'' @ [CHR 0x0A]
       @ ''Total Cost: $10.00''"
    unfolding spec_receipt_def lines cost n2 using ne by simp
  note refine = get_receipt_format [of ?o ?en, THEN conjunct2, THEN conjunct2, THEN conjunct1,
      THEN mp, OF wf]
  have e: "items Order_init = []"
    by (simp add: Order_init_def)
  note empty = get_receipt_format [of Order_init "\<lambda>n S. []", THEN conjunct1, THEN mp, OF e]
  show ?thesis
    unfolding refine spec empty by simp
qed

lemma join_str_Cons: "ys \<noteq> [] \<Longrightarrow> join_str sep (y # ys) = y @ sep @ join_str sep ys"
  by (cases ys) simp_all

lemma join_str_append:
  "xs \<noteq> [] \<Longrightarrow> ys \<noteq> [] \<Longrightarrow> join_str sep (xs @ ys) = join_str sep xs @ sep @ join_str sep ys"
proof (induction xs)
  case Nil
  then show ?case by simp
next
  case (Cons x xs)
  show ?case
  proof (cases "xs = []")
    case True
    with Cons.prems show ?thesis by (simp add: join_str_Cons)
  next
    case False
    with Cons show ?thesis by (simp add: join_str_Cons)
  qed
qed

lemma join_str_around:
  assumes "i < length xs" and "0 < i" and "Suc i < length xs"
  shows "join_str sep xs
           = join_str sep (take i xs) @ sep @ xs ! i @ sep @ join_str sep (drop (Suc i) xs)"
proof -
  from assms have a: "take i xs \<noteq> []" and b: "drop (Suc i) xs \<noteq> []"
    by auto
  from assms have "xs = take i xs @ xs ! i # drop (Suc i) xs"
    by (intro id_take_nth_drop)
  then have "join_str sep xs = join_str sep (take i xs @ xs ! i # drop (Suc i) xs)"
    by simp
  also from a have "\<dots> = join_str sep (take i xs) @ sep @ join_str sep (xs ! i # drop (Suc i) xs)"
    by (intro join_str_append) simp_all
  also from b have "join_str sep (xs ! i # drop (Suc i) xs)
      = xs ! i @ sep @ join_str sep (drop (Suc i) xs)"
    by (rule join_str_Cons)
  finally show ?thesis .
qed

text \<open>
  Claim C10. For a drink of an order whose base is unset, the text that \<^verbatim>\<open>get_receipt()\<close>
  returns has, between the lines before it and the lines after it, the line of that drink
  with the base rendered as the text \<^verbatim>\<open>None\<close>, which is \<^verbatim>\<open>str(None)\<close>; when the drink
  has no flavors the line ends in the same text, after \<^verbatim>\<open>Flavors:\<close>.
\<close>

theorem unset_base_rendered_None:
  "k < length (items ord) \<and> base (items ord ! k) = None \<longrightarrow>
     str_base (get_base (items ord ! k)) = ''None''
     \<and> get_receipt en ord
         = join_str [CHR 0x0A] (take (k + 1) (receipt_lines en ord)) @ [CHR 0x0A]
           @ str_nat (k + 1) @ ''. Base: None, Flavors: ''
           @ (let joined = join_str '', '' (en (k + 1) (flavors (items ord ! k)))
              in if joined = [] then ''None'' else joined)
           @ [CHR 0x0A] @ join_str [CHR 0x0A] (drop (k + 2) (receipt_lines en ord))
     \<and> (flavors (items ord ! k) = {} \<and> en (k + 1) {} = []
          \<longrightarrow> get_receipt en ord
                = join_str [CHR 0x0A] (take (k + 1) (receipt_lines en ord)) @ [CHR 0x0A]
                  @ str_nat (k + 1) @ ''. Base: None, Flavors: None''
                  @ [CHR 0x0A] @ join_str [CHR 0x0A] (drop (k + 2) (receipt_lines en ord)))"
proof (intro impI)
  assume h: "k < length (items ord) \<and> base (items ord ! k) = None"
  let ?L = "receipt_lines en ord"
  let ?nl = "[CHR 0x0A]"
  let ?flav = "let joined = join_str '', '' (en (k + 1) (flavors (items ord ! k)))
              in if joined = [] then ''None'' else joined"
  from h have ne: "items ord \<noteq> []" by auto
  have len: "length ?L = length (items ord) + 3"
    by (simp add: receipt_lines_eq)
  from h have line: "?L ! (k + 1) = receipt_line (en (k + 1)) (k + 1) (items ord ! k)"
    by (simp only: receipt_lines_nth)
  have c: "?L ! (k + 1) = str_nat (k + 1) @ ''. Base: None, Flavors: '' @ ?flav"
    unfolding line using h by (simp add: receipt_line_def get_base_def get_flavors_def Let_def)
  have "get_receipt en ord = join_str ?nl ?L"
    using ne by (simp add: get_receipt_def)
  also have "\<dots> = join_str ?nl (take (k + 1) ?L) @ ?nl @ ?L ! (k + 1) @ ?nl
      @ join_str ?nl (drop (Suc (k + 1)) ?L)"
    using h len by (intro join_str_around) simp_all
  finally have r0: "get_receipt en ord
      = join_str ?nl (take (k + 1) ?L) @ ?nl @ ?L ! (k + 1) @ ?nl
        @ join_str ?nl (drop (Suc (k + 1)) ?L)" .
  have s: "Suc (k + 1) = k + 2" by simp
  from r0 have r: "get_receipt en ord
      = join_str ?nl (take (k + 1) ?L) @ ?nl
        @ str_nat (k + 1) @ ''. Base: None, Flavors: '' @ ?flav
        @ ?nl @ join_str ?nl (drop (k + 2) ?L)"
    unfolding c s by (simp only: append_assoc)
  have b: "str_base (get_base (items ord ! k)) = ''None''"
    using h by (simp add: get_base_def)
  have d: "flavors (items ord ! k) = {} \<and> en (k + 1) {} = []
          \<longrightarrow> get_receipt en ord
                = join_str ?nl (take (k + 1) ?L) @ ?nl
                  @ str_nat (k + 1) @ ''. Base: None, Flavors: None''
                  @ ?nl @ join_str ?nl (drop (k + 2) ?L)"
  proof
    assume "flavors (items ord ! k) = {} \<and> en (k + 1) {} = []"
    then have "?flav = ''None''" by simp
    with r show "get_receipt en ord
                = join_str ?nl (take (k + 1) ?L) @ ?nl
                  @ str_nat (k + 1) @ ''. Base: None, Flavors: None''
                  @ ?nl @ join_str ?nl (drop (k + 2) ?L)"
      by simp
  qed
  from b r d show "str_base (get_base (items ord ! k)) = ''None''
     \<and> get_receipt en ord
         = join_str ?nl (take (k + 1) ?L) @ ?nl
           @ str_nat (k + 1) @ ''. Base: None, Flavors: '' @ ?flav
           @ ?nl @ join_str ?nl (drop (k + 2) ?L)
     \<and> (flavors (items ord ! k) = {} \<and> en (k + 1) {} = []
          \<longrightarrow> get_receipt en ord
                = join_str ?nl (take (k + 1) ?L) @ ?nl
                  @ str_nat (k + 1) @ ''. Base: None, Flavors: None''
                  @ ?nl @ join_str ?nl (drop (k + 2) ?L))"
    by (intro conjI)
qed

theorem unset_base_rendered_None_witness:
  "get_receipt (\<lambda>n S. []) \<lparr>items = [\<lparr>base = Some ''water'', flavors = {}\<rparr>, Drink_init]\<rparr>
     = ''--- Order Receipt ---'' @ [CHR 0x0A]
       @ ''1. Base: water, Flavors: None'' @ [CHR 0x0A]
       @ ''2. Base: None, Flavors: None'' @ [CHR 0x0A]
       @ ''Total Drinks: 2'' @ [CHR 0x0A]
       @ ''Total Cost: $10.00''"
proof -
  let ?en = "\<lambda>(n::nat) (S::string set). ([]::string list)"
  let ?o = "\<lparr>items = [\<lparr>base = Some ''water'', flavors = {}\<rparr>, Drink_init]\<rparr>"
  have h: "1 < length (items ?o) \<and> base (items ?o ! 1) = None"
    by (simp add: Drink_init_def)
  have f: "flavors (items ?o ! 1) = {} \<and> ?en (1 + 1) {} = []"
    by (simp add: Drink_init_def)
  note t = unset_base_rendered_None [of 1 ?o ?en, THEN mp, OF h, THEN conjunct2,
      THEN conjunct2, THEN mp, OF f]
  have tot: "get_total ?o = of_nat 10"
    using get_total_exact [of ?o] by simp
  have cost: "format_2f (get_total ?o) = ''10.00''"
    unfolding tot format_2f_nat by (simp add: str_nat_digit str_nat_step digit_char_def)
  have s2: "str_nat 2 = ''2''"
    by (simp add: str_nat_digit digit_char_def)
  have l1: "receipt_line (?en 1) 1 \<lparr>base = Some ''water'', flavors = {}\<rparr>
      = ''1. Base: water, Flavors: None''"
    by (simp add: receipt_line_def get_flavors_def get_base_def str_nat_digit digit_char_def)
  have l2: "receipt_line (?en (1 + 1)) (1 + 1) Drink_init = ''2. Base: None, Flavors: None''"
    by (simp add: receipt_line_def get_flavors_def get_base_def Drink_init_def str_nat_digit digit_char_def)
  have it: "items ?o = [\<lparr>base = Some ''water'', flavors = {}\<rparr>, Drink_init]"
    by simp
  have loop: "receipt_loop ?en 1 (items ?o) [''--- Order Receipt ---'']
      = [''--- Order Receipt ---'', ''1. Base: water, Flavors: None'',
         ''2. Base: None, Flavors: None'']"
    unfolding it by (simp only: receipt_loop.simps l1 l2 append.simps)
  have n: "str_nat (nat (get_num_items ?o)) = ''2''"
    by (simp add: get_num_items_def s2)
  have L: "receipt_lines ?en ?o
      = [''--- Order Receipt ---'', ''1. Base: water, Flavors: None'',
         ''2. Base: None, Flavors: None'', ''Total Drinks: 2'', ''Total Cost: $10.00'']"
    unfolding receipt_lines_def Let_def loop n cost by simp
  show ?thesis
    unfolding t L one_add_one s2 by simp
qed

end
